theory Spec2Isabelle
  imports Main
begin

section \<open>Tokens and run-time values\<close>

text \<open>
  Modelled from the spec: the token of \<^verbatim>\<open>lexer.ts\<close>, a record of a kind and the
  characters, with the kinds that \<^verbatim>\<open>parser.ts\<close> tests (\<^verbatim>\<open>TokenType.NUMBER\<close>, ...).
\<close>

datatype TokenType =
  NUMBER | SYMBOL | LPAREN | RPAREN | LANGLE | RANGLE | LBRACKET | RBRACKET | IGNORE

record Token =
  type :: TokenType
  characters :: string

text \<open>
  The semantic actions of the grammar are untyped at run time: they index whatever the
  engine hands them (\<^verbatim>\<open>x[1]\<close>, \<^verbatim>\<open>x[0]\<close> on a string, \<^verbatim>\<open>args.length\<close>) and store the
  results in the nodes. The values are therefore JavaScript values: \<^verbatim>\<open>undefined\<close>,
  numbers, strings, tokens, arrays and object literals, and the AST nodes.

  The numbers are the Number values that the grammar can produce, all of them integral:
  \<open>JNum n\<close> for a finite one (one that a double holds exactly), \<^verbatim>\<open>-0\<close>, the two
  infinities and \<^verbatim>\<open>NaN\<close>. A string is a sequence of code units below 256, as \<open>char\<close> has
  them. \<open>JSeq\<close> is the array of the values of a sequence: to an action it is an array
  like any other, and only \<open>then_p\<close> tells it from the array of a repetition.

  Modelled from the spec: the node classes of \<^verbatim>\<open>ast.ts\<close>, one constructor for each
  class that \<^verbatim>\<open>parser.ts\<close> instantiates, with the constructor arguments in the order of
  the \<^verbatim>\<open>new\<close> expression and the mapping of attributes (string key to value) last.
\<close>

datatype js =
    Undefined
  | NaN
  | JNum int
  | NegZero
  | Infinity
  | NegInfinity
  | JStr string
  | JTok Token
  | JArr "js list"
  | JSeq "js list"
  | JObj "(string \<times> js) list"
  | Num js "(string \<times> js) list"
  | Symbol js "(string \<times> js) list"
  | AnonymousFunction js js "(string \<times> js) list"
  | FunctionApplication js js "(string \<times> js) list"
  | ClosureApplication js js "(string \<times> js) list"
  | BuiltinPlus "(string \<times> js) list"
  | BuiltinMinus "(string \<times> js) list"
  | BuiltinTimes "(string \<times> js) list"
  | BuiltinDivide "(string \<times> js) list"
  | BuiltinEqual "(string \<times> js) list"
  | BuiltinModulo "(string \<times> js) list"
  | BuiltinLessThan "(string \<times> js) list"
  | BuiltinGreaterThan "(string \<times> js) list"
  | BuiltinLessThanEqual "(string \<times> js) list"
  | BuiltinGreaterThanEqual "(string \<times> js) list"
  | BuiltinAnd "(string \<times> js) list"
  | BuiltinOr "(string \<times> js) list"
  | BuiltinNot "(string \<times> js) list"
  | BuiltinXor "(string \<times> js) list"
  | BuiltinApplication js js "(string \<times> js) list"
  | IfExpression js js js "(string \<times> js) list"
  | LetExpressions js js "(string \<times> js) list"
  | BindingPair js js "(string \<times> js) list"
  | Tuple js "(string \<times> js) list"
  | List js "(string \<times> js) list"

text \<open>
  What can go wrong: the terminal failure of the driver, the \<^verbatim>\<open>Error('Unknown builtin.')\<close>
  of the builtin mapping, and the \<^verbatim>\<open>TypeError\<close> of reading a property of \<^verbatim>\<open>undefined\<close>.
\<close>

datatype error = ParseError | UnknownBuiltin | TypeError

fun bindE :: "error + 'a \<Rightarrow> ('a \<Rightarrow> error + 'b) \<Rightarrow> error + 'b" where
  "bindE (Inl e) f = Inl e"
| "bindE (Inr a) f = f a"

subsection \<open>The JavaScript operations the semantic actions use\<close>

text \<open>\<^verbatim>\<open>x[i]\<close>: an element of an array, a one-character string of a string, \<^verbatim>\<open>undefined\<close>
  out of range and on any other object, a \<^verbatim>\<open>TypeError\<close> on \<^verbatim>\<open>undefined\<close>.\<close>

fun index :: "js \<Rightarrow> nat \<Rightarrow> error + js" where
  "index Undefined i = Inl TypeError"
| "index (JArr xs) i = Inr (if i < length xs then xs ! i else Undefined)"
| "index (JSeq xs) i = Inr (if i < length xs then xs ! i else Undefined)"
| "index (JStr s) i = Inr (if i < length s then JStr [s ! i] else Undefined)"
| "index v i = Inr Undefined"

text \<open>\<^verbatim>\<open>x.length\<close>.\<close>

fun get_length :: "js \<Rightarrow> error + js" where
  "get_length Undefined = Inl TypeError"
| "get_length (JArr xs) = Inr (JNum (int (length xs)))"
| "get_length (JSeq xs) = Inr (JNum (int (length xs)))"
| "get_length (JStr s) = Inr (JNum (int (length s)))"
| "get_length (JObj kvs) = Inr (case map_of kvs ''length'' of None \<Rightarrow> Undefined | Some v \<Rightarrow> v)"
| "get_length v = Inr Undefined"

text \<open>\<^verbatim>\<open>x.characters\<close>.\<close>

fun get_characters :: "js \<Rightarrow> error + js" where
  "get_characters Undefined = Inl TypeError"
| "get_characters (JTok t) = Inr (JStr (characters t))"
| "get_characters (JObj kvs) =
     Inr (case map_of kvs ''characters'' of None \<Rightarrow> Undefined | Some v \<Rightarrow> v)"
| "get_characters v = Inr Undefined"

text \<open>\<^verbatim>\<open>x.attrs\<close>: the attribute object of a node.\<close>

fun get_attrs :: "js \<Rightarrow> error + js" where
  "get_attrs Undefined = Inl TypeError"
| "get_attrs (JObj kvs) = Inr (case map_of kvs ''attrs'' of None \<Rightarrow> Undefined | Some v \<Rightarrow> v)"
| "get_attrs (Num v a) = Inr (JObj a)"
| "get_attrs (Symbol v a) = Inr (JObj a)"
| "get_attrs (AnonymousFunction v w a) = Inr (JObj a)"
| "get_attrs (FunctionApplication v w a) = Inr (JObj a)"
| "get_attrs (ClosureApplication v w a) = Inr (JObj a)"
| "get_attrs (BuiltinPlus a) = Inr (JObj a)"
| "get_attrs (BuiltinMinus a) = Inr (JObj a)"
| "get_attrs (BuiltinTimes a) = Inr (JObj a)"
| "get_attrs (BuiltinDivide a) = Inr (JObj a)"
| "get_attrs (BuiltinEqual a) = Inr (JObj a)"
| "get_attrs (BuiltinModulo a) = Inr (JObj a)"
| "get_attrs (BuiltinLessThan a) = Inr (JObj a)"
| "get_attrs (BuiltinGreaterThan a) = Inr (JObj a)"
| "get_attrs (BuiltinLessThanEqual a) = Inr (JObj a)"
| "get_attrs (BuiltinGreaterThanEqual a) = Inr (JObj a)"
| "get_attrs (BuiltinAnd a) = Inr (JObj a)"
| "get_attrs (BuiltinOr a) = Inr (JObj a)"
| "get_attrs (BuiltinNot a) = Inr (JObj a)"
| "get_attrs (BuiltinXor a) = Inr (JObj a)"
| "get_attrs (BuiltinApplication v w a) = Inr (JObj a)"
| "get_attrs (IfExpression u v w a) = Inr (JObj a)"
| "get_attrs (LetExpressions v w a) = Inr (JObj a)"
| "get_attrs (BindingPair v w a) = Inr (JObj a)"
| "get_attrs (Tuple v a) = Inr (JObj a)"
| "get_attrs (List v a) = Inr (JObj a)"
| "get_attrs v = Inr Undefined"

text \<open>\<^verbatim>\<open>x.arg_count\<close>.\<close>

fun get_arg_count :: "js \<Rightarrow> error + js" where
  "get_arg_count Undefined = Inl TypeError"
| "get_arg_count (JObj kvs) =
     Inr (case map_of kvs ''arg_count'' of None \<Rightarrow> Undefined | Some v \<Rightarrow> v)"
| "get_arg_count v = Inr Undefined"

text \<open>
  The Number value of an integer that is not negative: the integer itself below
  \<open>2 ^ 53\<close>, and beyond it the nearest integer with 53 significant bits, the even one of
  two that are equally near; there is none (the value is infinite) from \<open>2 ^ 1024\<close> on.
\<close>

function bit_length :: "int \<Rightarrow> nat" where
  "bit_length n = (if n \<le> 0 then 0 else Suc (bit_length (n div 2)))"
  by pat_completeness auto
termination
  by (relation "measure nat") auto

declare bit_length.simps [simp del]

definition to_double :: "int \<Rightarrow> int option" where
  "to_double n =
     (if n < 2 ^ 53 then Some n
      else
        let e = bit_length n - 53;
            q = n div 2 ^ e;
            r = n mod 2 ^ e;
            h = 2 ^ (e - 1);
            d = (if h < r \<or> (r = h \<and> odd q) then q + 1 else q) * 2 ^ e
        in if 2 ^ 1024 \<le> d then None else Some d)"

definition number :: "bool \<Rightarrow> int \<Rightarrow> js" where
  "number negative n =
     (case to_double n of
        None \<Rightarrow> if negative then NegInfinity else Infinity
      | Some d \<Rightarrow> if negative then (if d = 0 then NegZero else JNum (- d)) else JNum d)"

definition number_of_int :: "int \<Rightarrow> js" where
  "number_of_int z = (if z < 0 then number True (- z) else number False z)"

text \<open>\<^verbatim>\<open>a - b\<close>: the difference of two numbers, rounded as a Number is; \<^verbatim>\<open>NaN\<close> when an
  operand is \<^verbatim>\<open>undefined\<close> or \<^verbatim>\<open>NaN\<close> and for the difference of equal infinities. The
  grammar subtracts a length from an attribute that is a length or such a difference;
  operands that are strings or objects, which JavaScript would convert first, give
  \<^verbatim>\<open>NaN\<close> here.\<close>

datatype operand = Finite int | MinusZero | PlusInfinity | MinusInfinity | NotANumber

fun operand_of :: "js \<Rightarrow> operand" where
  "operand_of (JNum n) = Finite n"
| "operand_of NegZero = MinusZero"
| "operand_of Infinity = PlusInfinity"
| "operand_of NegInfinity = MinusInfinity"
| "operand_of v = NotANumber"

fun difference :: "operand \<Rightarrow> operand \<Rightarrow> js" where
  "difference NotANumber b = NaN"
| "difference a NotANumber = NaN"
| "difference PlusInfinity PlusInfinity = NaN"
| "difference MinusInfinity MinusInfinity = NaN"
| "difference PlusInfinity b = Infinity"
| "difference MinusInfinity b = NegInfinity"
| "difference a PlusInfinity = NegInfinity"
| "difference a MinusInfinity = Infinity"
| "difference (Finite a) (Finite b) = number_of_int (a - b)"
| "difference (Finite a) MinusZero = JNum a"
| "difference MinusZero (Finite b) = (if b = 0 then NegZero else JNum (- b))"
| "difference MinusZero MinusZero = JNum 0"

definition js_minus :: "js \<Rightarrow> js \<Rightarrow> js" where
  "js_minus a b = difference (operand_of a) (operand_of b)"

text \<open>\<^verbatim>\<open>xs.concat(v)\<close>: the elements of \<^verbatim>\<open>v\<close> are appended when it is an array, \<^verbatim>\<open>v\<close>
  itself otherwise.\<close>

fun js_concat :: "js list \<Rightarrow> js \<Rightarrow> js" where
  "js_concat xs (JArr ys) = JArr (xs @ ys)"
| "js_concat xs (JSeq ys) = JArr (xs @ ys)"
| "js_concat xs v = JArr (xs @ [v])"

text \<open>\<^verbatim>\<open>parseInt(s)\<close>: leading white space, a sign, then the longest run of digits, in base
  16 after \<^verbatim>\<open>0x\<close> and in base 10 otherwise; the Number value of the digits with the sign,
  and \<^verbatim>\<open>NaN\<close> when there is no digit. Of the white space and line terminators of
  JavaScript, seven are code units below 256: TAB, LF, VT, FF, CR, SP and NBSP. (Beyond
  twenty significant decimal digits an implementation may round the digits before it
  rounds the value; here the value of all digits is rounded, once.)\<close>

definition is_space :: "char \<Rightarrow> bool" where
  "is_space c =
     (c \<in> set [CHR 0x09, CHR 0x0A, CHR 0x0B, CHR 0x0C, CHR 0x0D, CHR 0x20, CHR 0xA0])"

definition digit_value :: "char \<Rightarrow> nat" where
  "digit_value c =
     (let n = (of_char c :: nat) in
      if 48 \<le> n \<and> n \<le> 57 then n - 48
      else if 97 \<le> n \<and> n \<le> 122 then n - 87
      else if 65 \<le> n \<and> n \<le> 90 then n - 55
      else 36)"

fun digits_value :: "nat \<Rightarrow> int \<Rightarrow> string \<Rightarrow> int" where
  "digits_value radix acc [] = acc"
| "digits_value radix acc (c # cs) =
     digits_value radix (acc * int radix + int (digit_value c)) cs"

definition parse_digits :: "nat \<Rightarrow> string \<Rightarrow> int option" where
  "parse_digits radix s =
     (let ds = takeWhile (\<lambda>c. digit_value c < radix) s in
      if ds = [] then None else Some (digits_value radix 0 ds))"

definition parse_unsigned :: "string \<Rightarrow> int option" where
  "parse_unsigned s =
     (if take 2 s = ''0x'' \<or> take 2 s = ''0X'' then parse_digits 16 (drop 2 s)
      else parse_digits 10 s)"

definition parseInt_string :: "string \<Rightarrow> js" where
  "parseInt_string s =
     (let t = dropWhile is_space s in
      case t of
        [] \<Rightarrow> NaN
      | c # cs \<Rightarrow>
          if c = CHR ''-'' then
            (case parse_unsigned cs of None \<Rightarrow> NaN | Some n \<Rightarrow> number True n)
          else if c = CHR ''+'' then
            (case parse_unsigned cs of None \<Rightarrow> NaN | Some n \<Rightarrow> number False n)
          else
            (case parse_unsigned t of None \<Rightarrow> NaN | Some n \<Rightarrow> number False n))"

text \<open>\<^verbatim>\<open>parseInt(v)\<close> parses the string form of \<^verbatim>\<open>v\<close>. The action of \<^verbatim>\<open>num\<close> passes the
  characters of the matched token, a string, and no other value reaches it;
  \<^verbatim>\<open>undefined\<close>, whose string form holds no digit, gives \<^verbatim>\<open>NaN\<close>, and so does, here, every
  other value.\<close>

fun parseInt :: "js \<Rightarrow> js" where
  "parseInt (JStr s) = parseInt_string s"
| "parseInt v = NaN"


section \<open>The combinator engine\<close>

text \<open>
  A parsing unit is applied to the token sequence and a cursor. It succeeds with a value
  and the new cursor, fails (a local failure, which \<open>or_p\<close> and the repetitions consume),
  or throws: an exception of a semantic action passes through every combinator.
  \<open>NoReturn\<close> is the application that never returns.
\<close>

datatype reply = Success js nat | Failure | Thrown error | NoReturn

type_synonym Parser = "Token list \<Rightarrow> nat \<Rightarrow> reply"

text \<open>
  Modelled from the spec: \<^verbatim>\<open>Parser.m\<close> (match) of \<^verbatim>\<open>combinators.ts\<close>. It succeeds
  consuming exactly one token iff the predicate holds of the token at the cursor; its value
  is that token (the actions of \<^verbatim>\<open>num\<close> and \<^verbatim>\<open>symb\<close> read \<^verbatim>\<open>x.characters\<close> of it).
\<close>

fun m :: "(Token \<Rightarrow> bool) \<Rightarrow> Parser" where
  "m f ts i = (if i < length ts \<and> f (ts ! i) then Success (JTok (ts ! i)) (Suc i) else Failure)"

text \<open>
  Modelled from the spec: the value of a sequence, "the ordered pair (or flattened
  list) of both values": the list of the values of its units, flattened, so that a
  sequence that is a unit of a sequence contributes its values one by one, on either side.
  \<^verbatim>\<open>parenthesize(p)\<close> of a sequence \<^verbatim>\<open>p\<close> so yields the left parenthesis, the values of
  \<^verbatim>\<open>p\<close> and the right parenthesis in one list, which is the list that the actions of
  \<^verbatim>\<open>anonymous_func\<close> (\<^verbatim>\<open>x[2]\<close>, \<^verbatim>\<open>x[3]\<close>), \<^verbatim>\<open>func_application\<close>, \<^verbatim>\<open>closure\<close>,
  \<^verbatim>\<open>if_expression\<close> (\<^verbatim>\<open>x[2]\<close>, \<^verbatim>\<open>x[3]\<close>, \<^verbatim>\<open>x[4]\<close>), \<^verbatim>\<open>let_expression\<close> and \<^verbatim>\<open>list\<close>
  index. The array of a repetition is one value (\<^verbatim>\<open>symbol_list\<close> takes it as \<^verbatim>\<open>x[1]\<close>).
  The action of \<^verbatim>\<open>builtin\<close> alone indexes another shape (\<^verbatim>\<open>non_parens = x[1]\<close>, then
  \<^verbatim>\<open>non_parens[0]\<close> and \<^verbatim>\<open>non_parens[1]\<close>); the spec does not say more about the value of
  a sequence, and no property below is about the node of a builtin application.
\<close>

fun values_of :: "js \<Rightarrow> js list" where
  "values_of (JSeq xs) = xs"
| "values_of v = [v]"

definition sequence_value :: "js \<Rightarrow> js \<Rightarrow> js" where
  "sequence_value a b = JSeq (values_of a @ values_of b)"

text \<open>
  Modelled from the spec: \<^verbatim>\<open>then\<close> (sequence) of \<^verbatim>\<open>combinators.ts\<close>. It succeeds iff
  the first unit succeeds at the cursor and the second at the first one's cursor.
\<close>

fun then_p :: "Parser \<Rightarrow> Parser \<Rightarrow> Parser" where
  "then_p p q ts i =
     (case p ts i of
        Success a j \<Rightarrow>
          (case q ts j of Success b k \<Rightarrow> Success (sequence_value a b) k | r \<Rightarrow> r)
      | r \<Rightarrow> r)"

text \<open>
  Modelled from the spec: \<^verbatim>\<open>or\<close> (ordered choice) of \<^verbatim>\<open>combinators.ts\<close>. The second
  unit is tried, from the original cursor, only when the first one fails.
\<close>

fun or_p :: "Parser \<Rightarrow> Parser \<Rightarrow> Parser" where
  "or_p p q ts i = (case p ts i of Failure \<Rightarrow> q ts i | r \<Rightarrow> r)"

text \<open>
  Modelled from the spec: the repetition behind \<^verbatim>\<open>many\<close> and \<^verbatim>\<open>zero_or_more\<close> of
  \<^verbatim>\<open>combinators.ts\<close>: the unit is applied until it fails, and the values are collected
  in order, in an array. A unit that succeeds without moving the cursor forward would be
  applied for ever (no unit built from \<open>m\<close> moves the cursor beyond the end of the
  tokens).
\<close>

function repeat :: "Parser \<Rightarrow> Token list \<Rightarrow> nat \<Rightarrow> js list \<Rightarrow> reply" where
  "repeat p ts i acc =
     (case p ts i of
        Success v j \<Rightarrow>
          if i < j \<and> j \<le> length ts then repeat p ts j (acc @ [v]) else NoReturn
      | Failure \<Rightarrow> Success (JArr acc) i
      | Thrown e \<Rightarrow> Thrown e
      | NoReturn \<Rightarrow> NoReturn)"
  by pat_completeness auto
termination
  by (relation "measure (\<lambda>(p, ts, i, acc). length ts - i)") auto

declare repeat.simps [simp del]

text \<open>Modelled from the spec: \<^verbatim>\<open>zero_or_more\<close> succeeds also when the unit never does.\<close>

fun zero_or_more :: "Parser \<Rightarrow> Parser" where
  "zero_or_more p ts i = repeat p ts i []"

text \<open>Modelled from the spec: \<^verbatim>\<open>many\<close> requires at least one success, else it fails.\<close>

fun many :: "Parser \<Rightarrow> Parser" where
  "many p ts i =
     (case repeat p ts i [] of
        Success v j \<Rightarrow> if v = JArr [] then Failure else Success v j
      | r \<Rightarrow> r)"

text \<open>
  Modelled from the spec: \<^verbatim>\<open>transformer\<close> (transform) of \<^verbatim>\<open>combinators.ts\<close>: the
  value of the unit is replaced by the action's value; an action that throws ends the
  whole parse.
\<close>

fun transformer :: "Parser \<Rightarrow> (js \<Rightarrow> error + js) \<Rightarrow> Parser" where
  "transformer p f ts i =
     (case p ts i of
        Success v j \<Rightarrow> (case f v of Inl e \<Rightarrow> Thrown e | Inr w \<Rightarrow> Success w j)
      | r \<Rightarrow> r)"

text \<open>
  Modelled from the spec: \<^verbatim>\<open>Parser.delay\<close> of \<^verbatim>\<open>combinators.ts\<close>: the rule is
  resolved when the unit is applied.
\<close>

fun delay :: "(unit \<Rightarrow> Parser) \<Rightarrow> Parser" where
  "delay g ts i = g () ts i"

text \<open>
  Modelled from the spec: \<^verbatim>\<open>parse_input\<close> (run) of \<^verbatim>\<open>combinators.ts\<close>: the unit is
  applied from position 0, and again until the token sequence is exhausted; the results
  are returned in order. An application that fails is the terminal failure, also when
  tokens remain after an earlier application.
\<close>

function run :: "Parser \<Rightarrow> Token list \<Rightarrow> nat \<Rightarrow> js list \<Rightarrow> (error + js list) option" where
  "run p ts i acc =
     (case p ts i of
        Success v j \<Rightarrow>
          if length ts \<le> j then Some (Inr (acc @ [v]))
          else if i < j then run p ts j (acc @ [v])
          else None
      | Failure \<Rightarrow> Some (Inl ParseError)
      | Thrown e \<Rightarrow> Some (Inl e)
      | NoReturn \<Rightarrow> None)"
  by pat_completeness auto
termination
  by (relation "measure (\<lambda>(p, ts, i, acc). length ts - i)") auto

declare run.simps [simp del]

definition parse_input :: "Parser \<Rightarrow> Token list \<Rightarrow> (error + js list) option" where
  "parse_input p ts = run p ts 0 []"


section \<open>The grammar (class G of parser.ts)\<close>

text \<open>Matches the given word.\<close>

definition word :: "string \<Rightarrow> Parser" where
  "word w = m (\<lambda>x. characters x = w)"

text \<open>Matches any one of a set of words: the words are mapped to \<open>word\<close> and reduced
  with \<open>or_p\<close> (\<^verbatim>\<open>reduce\<close> without a start value throws on the empty array), and the
  action returns the characters of the token.\<close>

fun word_set :: "string list \<Rightarrow> Parser" where
  "word_set [] = (\<lambda>ts i. Thrown TypeError)"
| "word_set (w # ws) = transformer (foldl or_p (word w) (map word ws)) get_characters"

text \<open>\<^verbatim>\<open>( p )\<close>.\<close>

definition lparen :: Parser where
  "lparen = m (\<lambda>x. type x = LPAREN)"

definition rparen :: Parser where
  "rparen = m (\<lambda>x. type x = RPAREN)"

definition parenthesize :: "Parser \<Rightarrow> Parser" where
  "parenthesize p = then_p (then_p lparen p) rparen"

text \<open>Number token, symbol token.\<close>

definition num :: Parser where
  "num = transformer (m (\<lambda>x. type x = NUMBER))
     (\<lambda>x. bindE (get_characters x) (\<lambda>c. Inr (Num (parseInt c) [])))"

definition symb :: Parser where
  "symb = transformer (m (\<lambda>x. type x = SYMBOL))
     (\<lambda>x. bindE (get_characters x) (\<lambda>c. Inr (Symbol c [])))"

text \<open>\<^verbatim>\<open>(sym sym ... sym)\<close>.\<close>

definition symbol_list :: Parser where
  "symbol_list = transformer (parenthesize (many symb)) (\<lambda>x. index x 1)"

text \<open>\<^verbatim>\<open>(fun (sym sym sym) s-expr)\<close>.\<close>

definition anonymous_func :: "Parser \<Rightarrow> Parser" where
  "anonymous_func delayed_sexpr =
     transformer (parenthesize (then_p (then_p (word ''fun'') symbol_list) delayed_sexpr))
       (\<lambda>x. bindE (index x 2) (\<lambda>args.
            bindE (index x 3) (\<lambda>body.
            bindE (get_length args) (\<lambda>n.
            Inr (AnonymousFunction args body [(''arg_count'', n)])))))"

text \<open>\<^verbatim>\<open>((fun ...) s-expr*)\<close>.\<close>

definition func_application :: "Parser \<Rightarrow> Parser" where
  "func_application delayed_sexpr =
     transformer
       (parenthesize
          (then_p (then_p (anonymous_func delayed_sexpr) (zero_or_more delayed_sexpr)) rparen))
       (\<lambda>x. bindE (index x 1) (\<lambda>func.
            bindE (index x 2) (\<lambda>args.
            bindE (get_attrs func) (\<lambda>attrs.
            bindE (get_arg_count attrs) (\<lambda>c.
            bindE (get_length args) (\<lambda>n.
            Inr (FunctionApplication func args [(''arg_count'', js_minus c n)])))))))"

text \<open>\<^verbatim>\<open>(applied-func s-expr*)\<close>.\<close>

definition closure :: "Parser \<Rightarrow> Parser" where
  "closure delayed_sexpr =
     transformer
       (parenthesize (then_p (func_application delayed_sexpr) (zero_or_more delayed_sexpr)))
       (\<lambda>x. bindE (index x 1) (\<lambda>applied_func.
            bindE (index x 2) (\<lambda>args.
            bindE (get_attrs applied_func) (\<lambda>attrs.
            bindE (get_arg_count attrs) (\<lambda>c.
            bindE (get_length args) (\<lambda>n.
            Inr (ClosureApplication applied_func args [(''arg_count'', js_minus c n)])))))))"

text \<open>Current set of builtin functions: the \<^verbatim>\<open>switch\<close> on \<^verbatim>\<open>x[0]\<close>.\<close>

definition builtins_switch :: "js \<Rightarrow> error + js" where
  "builtins_switch x = bindE (index x 0) (\<lambda>c.
     if c = JStr ''+'' then Inr (BuiltinPlus [(''arity'', JNum 2)])
     else if c = JStr ''-'' then Inr (BuiltinMinus [(''arity'', JNum 2)])
     else if c = JStr ''*'' then Inr (BuiltinTimes [(''arity'', JNum 2)])
     else if c = JStr ''/'' then Inr (BuiltinDivide [(''arity'', JNum 2)])
     else if c = JStr ''='' then Inr (BuiltinEqual [(''arity'', JNum 2)])
     else if c = JStr ''%'' then Inr (BuiltinModulo [(''arity'', JNum 2)])
     else if c = JStr ''lt'' then Inr (BuiltinLessThan [(''arity'', JNum 2)])
     else if c = JStr ''gt'' then Inr (BuiltinGreaterThan [(''arity'', JNum 2)])
     else if c = JStr ''lte'' then Inr (BuiltinLessThanEqual [(''arity'', JNum 2)])
     else if c = JStr ''gte'' then Inr (BuiltinGreaterThanEqual [(''arity'', JNum 2)])
     else if c = JStr ''and'' then Inr (BuiltinAnd [(''arity'', JNum 2)])
     else if c = JStr ''or'' then Inr (BuiltinOr [(''arity'', JNum 2)])
     else if c = JStr ''not'' then Inr (BuiltinNot [(''arity'', JNum 1)])
     else if c = JStr ''xor'' then Inr (BuiltinXor [(''arity'', JNum 1)])
     else Inl UnknownBuiltin)"

definition builtins :: Parser where
  "builtins =
     transformer
       (word_set [''+'', ''-'', ''*'', ''/'', ''='', ''%'', ''lt'', ''gt'', ''lte'', ''gte''])
       builtins_switch"

text \<open>We currently single out builtin function application.\<close>

definition builtin :: "Parser \<Rightarrow> Parser" where
  "builtin delayed_sexpr =
     transformer (parenthesize (then_p builtins (zero_or_more delayed_sexpr)))
       (\<lambda>x. bindE (index x 1) (\<lambda>non_parens.
            bindE (index non_parens 0) (\<lambda>builtin.
            bindE (index non_parens 1) (\<lambda>args.
            Inr (BuiltinApplication builtin args [])))))"

text \<open>\<^verbatim>\<open>(if s-expr s-expr s-expr)\<close>.\<close>

definition if_expression :: "Parser \<Rightarrow> Parser" where
  "if_expression delayed_sexpr =
     transformer
       (parenthesize
          (then_p (then_p (then_p (word ''if'') delayed_sexpr) delayed_sexpr) delayed_sexpr))
       (\<lambda>x. bindE (index x 2) (\<lambda>test.
            bindE (index x 3) (\<lambda>true_branch.
            bindE (index x 4) (\<lambda>false_branch.
            Inr (IfExpression test true_branch false_branch [])))))"

text \<open>The angle and square brackets.\<close>

definition langle :: Parser where
  "langle = m (\<lambda>x. type x = LANGLE)"

definition rangle :: Parser where
  "rangle = m (\<lambda>x. type x = RANGLE)"

definition lbracket :: Parser where
  "lbracket = m (\<lambda>x. type x = LBRACKET)"

definition rbracket :: Parser where
  "rbracket = m (\<lambda>x. type x = RBRACKET)"

text \<open>Tuple: \<^verbatim>\<open><s-expr, ..., s-expr>\<close>.\<close>

definition tuple :: "Parser \<Rightarrow> Parser" where
  "tuple delayed_sexpr =
     transformer
       (then_p (then_p (then_p langle delayed_sexpr) (zero_or_more delayed_sexpr)) rangle)
       (\<lambda>x. bindE (index x 1) (\<lambda>first.
            bindE (index x 2) (\<lambda>others.
            Inr (Tuple (js_concat [first] others) []))))"

text \<open>Currently a wildcard: the pattern of a binding is any s-expression.\<close>

definition pattern :: "Parser \<Rightarrow> Parser" where
  "pattern delayed_sexpr = delayed_sexpr"

text \<open>\<^verbatim>\<open><pattern s-expr>\<close>.\<close>

definition binding_pair :: "Parser \<Rightarrow> Parser" where
  "binding_pair delayed_sexpr =
     transformer
       (then_p (then_p (then_p langle (pattern delayed_sexpr)) delayed_sexpr) rangle)
       (\<lambda>x. bindE (index x 1) (\<lambda>variable.
            bindE (index x 2) (\<lambda>val.
            Inr (BindingPair variable val []))))"

text \<open>\<^verbatim>\<open>(let <var s-expr>* s-expr)\<close>.\<close>

definition let_expression :: "Parser \<Rightarrow> Parser" where
  "let_expression delayed_sexpr =
     transformer
       (parenthesize
          (then_p (then_p (word ''let'') (many (binding_pair delayed_sexpr))) delayed_sexpr))
       (\<lambda>x. bindE (index x 2) (\<lambda>binding_pairs.
            bindE (index x 3) (\<lambda>body.
            Inr (LetExpressions binding_pairs body []))))"

text \<open>List: \<^verbatim>\<open>[s-expr, ..., s-expr]\<close>, and the empty list \<^verbatim>\<open>[]\<close>.\<close>

definition non_empty_data_list :: "Parser \<Rightarrow> Parser" where
  "non_empty_data_list delayed_sexpr =
     transformer
       (then_p (then_p (then_p lbracket delayed_sexpr) (zero_or_more delayed_sexpr)) rbracket)
       (\<lambda>x. bindE (index x 1) (\<lambda>first.
            bindE (index x 2) (\<lambda>others.
            Inr (List (js_concat [first] others) []))))"

definition empty_data_list :: Parser where
  "empty_data_list = transformer (then_p lbracket rbracket) (\<lambda>x. Inr (List (JArr []) []))"

text \<open>Atomic expressions: a bunch of stuff.\<close>

definition atomic :: "Parser \<Rightarrow> Parser" where
  "atomic delayed_sexpr =
     or_p (or_p (or_p (or_p (or_p (or_p (or_p (or_p (or_p (or_p
       (non_empty_data_list delayed_sexpr)
       empty_data_list)
       (tuple delayed_sexpr))
       num)
       (builtin delayed_sexpr))
       (anonymous_func delayed_sexpr))
       (if_expression delayed_sexpr))
       (func_application delayed_sexpr))
       (let_expression delayed_sexpr))
       (closure delayed_sexpr))
       symb"

text \<open>Non-empty list: \<^verbatim>\<open>(atomic s-expr*)\<close>.\<close>

definition list :: "Parser \<Rightarrow> Parser" where
  "list delayed_sexpr =
     transformer (parenthesize (then_p (atomic delayed_sexpr) (zero_or_more delayed_sexpr)))
       (\<lambda>x. bindE (index x 1) (\<lambda>first.
            bindE (index x 2) (\<lambda>others.
            Inr (js_concat [first] others))))"

text \<open>
  s-expr: \<^verbatim>\<open>atomic | non-empty list\<close>. The rule refers to itself through
  \<^verbatim>\<open>Parser.delay(x => G.s_expr)\<close>, which \<^verbatim>\<open>delayed_sexpr\<close> and \<^verbatim>\<open>pattern\<close> name; the
  productions above take that unit as their argument. The number counts the resolutions
  of \<open>delay\<close> that are still allowed below one another, and a rule that has none left
  does not return.
\<close>

primrec s_expr :: "nat \<Rightarrow> Parser" where
  "s_expr 0 = (\<lambda>ts i. NoReturn)"
| "s_expr (Suc n) =
     (let delayed_sexpr = delay (\<lambda>x. s_expr n)
      in or_p (atomic delayed_sexpr) (list delayed_sexpr))"

text \<open>
  Filter out all the ignorable tokens like whitespace and commas and parse the resulting
  list. Every resolution of \<open>delay\<close> follows a token matched by the rule around it, so one
  resolution more than there are tokens is never used up (\<open>parse_returns\<close> below), and
  more of them give the same result (\<open>parse_more_delay\<close>).
\<close>

definition parse :: "Token list \<Rightarrow> (error + js list) option" where
  "parse input =
     (let filtered_tokens = filter (\<lambda>x. \<not> (type x = IGNORE)) input
      in parse_input (many (s_expr (Suc (length filtered_tokens)))) filtered_tokens)"


section \<open>Inputs and notions of the properties\<close>

definition token :: "TokenType \<Rightarrow> string \<Rightarrow> Token" where
  "token t c = \<lparr>type = t, characters = c\<rparr>"

text \<open>The parse returned top-level values (no failure, no exception).\<close>

definition accepted :: "(error + js list) option \<Rightarrow> bool" where
  "accepted r = (case r of Some (Inr vs) \<Rightarrow> True | _ \<Rightarrow> False)"

text \<open>The alternatives of a list tried in order: the first one that does not fail decides.\<close>

fun first_of :: "Parser list \<Rightarrow> Parser" where
  "first_of [] ts i = Failure"
| "first_of (p # ps) ts i = (case p ts i of Failure \<Rightarrow> first_of ps ts i | r \<Rightarrow> r)"

text \<open>\<^verbatim>\<open>((fun (x y) (+ x y)) 1)\<close>\<close>

definition tokens_func_application :: "Token list" where
  "tokens_func_application =
     [token LPAREN ''('', token LPAREN ''('', token SYMBOL ''fun'',
      token LPAREN ''('', token SYMBOL ''x'', token SYMBOL ''y'', token RPAREN '')'',
      token LPAREN ''('', token SYMBOL ''+'', token SYMBOL ''x'', token SYMBOL ''y'',
      token RPAREN '')'', token RPAREN '')'', token NUMBER ''1'', token RPAREN '')'']"

text \<open>\<^verbatim>\<open>(lt 1 2)\<close>, \<^verbatim>\<open>(not 1)\<close>, \<^verbatim>\<open>(fun (1 2) x)\<close>, \<^verbatim>\<open>(let 1)\<close>, \<^verbatim>\<open><1,2>\<close>, \<^verbatim>\<open>1 )\<close>\<close>

definition tokens_lt :: "Token list" where
  "tokens_lt =
     [token LPAREN ''('', token SYMBOL ''lt'', token NUMBER ''1'', token NUMBER ''2'',
      token RPAREN '')'']"

definition tokens_not :: "Token list" where
  "tokens_not = [token LPAREN ''('', token SYMBOL ''not'', token NUMBER ''1'', token RPAREN '')'']"

definition tokens_fun_numbers :: "Token list" where
  "tokens_fun_numbers =
     [token LPAREN ''('', token SYMBOL ''fun'', token LPAREN ''('', token NUMBER ''1'',
      token NUMBER ''2'', token RPAREN '')'', token SYMBOL ''x'', token RPAREN '')'']"

definition tokens_let :: "Token list" where
  "tokens_let = [token LPAREN ''('', token SYMBOL ''let'', token NUMBER ''1'', token RPAREN '')'']"

definition tokens_tuple :: "Token list" where
  "tokens_tuple =
     [token LANGLE ''<'', token NUMBER ''1'', token IGNORE '','', token NUMBER ''2'',
      token RANGLE ''>'']"

definition tokens_stray :: "Token list" where
  "tokens_stray = [token NUMBER ''1'', token RPAREN '')'']"

text \<open>
  Notions for the cursor: a unit is productive when every success moves the cursor forward
  and keeps it inside the token sequence, advancing when no success moves it back, and it
  returns from a position on when no application at a later position inside the sequence
  is one that never returns.
\<close>

definition productive :: "Token list \<Rightarrow> Parser \<Rightarrow> bool" where
  "productive ts p = (\<forall>i v j. p ts i = Success v j \<longrightarrow> i < j \<and> j \<le> length ts)"

definition advancing :: "Token list \<Rightarrow> Parser \<Rightarrow> bool" where
  "advancing ts p =
     (\<forall>i v j. p ts i = Success v j \<longrightarrow> i \<le> j \<and> (i \<le> length ts \<longrightarrow> j \<le> length ts))"

definition returns_from :: "Token list \<Rightarrow> nat \<Rightarrow> Parser \<Rightarrow> bool" where
  "returns_from ts k p = (\<forall>i. k \<le> i \<and> i \<le> length ts \<longrightarrow> p ts i \<noteq> NoReturn)"

text \<open>One unit approximates another: wherever it returns, the other returns the same.\<close>

definition approximates :: "Parser \<Rightarrow> Parser \<Rightarrow> bool" where
  "approximates p q = (\<forall>ts i. p ts i \<noteq> NoReturn \<longrightarrow> q ts i = p ts i)"

section \<open>Evaluation\<close>

declare s_expr.simps [simp del]

lemma s_expr_step:
  "0 < n \<Longrightarrow>
   s_expr n ts i =
     or_p (atomic (delay (\<lambda>x. s_expr (n - 1)))) (list (delay (\<lambda>x. s_expr (n - 1)))) ts i"
  by (cases n) (simp_all add: s_expr.simps Let_def)

lemmas grammar_defs = word_def lparen_def rparen_def parenthesize_def num_def symb_def
  symbol_list_def anonymous_func_def func_application_def closure_def builtins_def
  builtins_switch_def builtin_def if_expression_def langle_def rangle_def lbracket_def
  rbracket_def tuple_def pattern_def binding_pair_def let_expression_def
  non_empty_data_list_def empty_data_list_def atomic_def list_def

lemmas eval_simps = grammar_defs s_expr_step repeat.simps run.simps parse_def parse_input_def
  sequence_value_def parseInt_string_def parse_unsigned_def parse_digits_def digit_value_def
  is_space_def number_def to_double_def js_minus_def number_of_int_def token_def accepted_def

section \<open>The repetition and the driver\<close>

lemma repeat_stops: "repeat p ts i acc = Success v j \<Longrightarrow> p ts j = Failure"
proof (induction p ts i acc rule: repeat.induct)
  case (1 p ts i acc)
  show ?case
  proof (cases "p ts i")
    case (Success w k)
    with "1.prems" have g: "i < k \<and> k \<le> length ts"
      and r: "repeat p ts k (acc @ [w]) = Success v j"
      by (auto simp: repeat.simps [of p ts i acc] split: if_splits)
    from "1.IH" [OF Success g r] show ?thesis .
  next
    case Failure
    with "1.prems" show ?thesis by (simp add: repeat.simps [of p ts i acc])
  next
    case (Thrown e)
    with "1.prems" show ?thesis by (simp add: repeat.simps [of p ts i acc])
  next
    case NoReturn
    with "1.prems" show ?thesis by (simp add: repeat.simps [of p ts i acc])
  qed
qed

lemma repeat_cursor:
  "repeat p ts i acc = Success v j \<Longrightarrow> i \<le> j \<and> (j = i \<longrightarrow> v = JArr acc)"
proof (induction p ts i acc rule: repeat.induct)
  case (1 p ts i acc)
  show ?case
  proof (cases "p ts i")
    case (Success w k)
    with "1.prems" have g: "i < k \<and> k \<le> length ts"
      and r: "repeat p ts k (acc @ [w]) = Success v j"
      by (auto simp: repeat.simps [of p ts i acc] split: if_splits)
    from "1.IH" [OF Success g r] g show ?thesis by auto
  next
    case Failure
    with "1.prems" show ?thesis by (simp add: repeat.simps [of p ts i acc])
  next
    case (Thrown e)
    with "1.prems" show ?thesis by (simp add: repeat.simps [of p ts i acc])
  next
    case NoReturn
    with "1.prems" show ?thesis by (simp add: repeat.simps [of p ts i acc])
  qed
qed

lemma many_trailing:
  assumes "many p ts 0 = Success v j" and "j < length ts"
  shows "parse_input (many p) ts = Some (Inl ParseError)"
proof -
  from assms(1) have r: "repeat p ts 0 [] = Success v j" and ne: "v \<noteq> JArr []"
    by (auto split: reply.splits if_splits)
  from repeat_stops [OF r] have stop: "p ts j = Failure" .
  from repeat_cursor [OF r] ne have pos: "0 < j" by auto
  from stop have "repeat p ts j [] = Success (JArr []) j"
    by (simp add: repeat.simps [of p ts j "[]"])
  then have again: "many p ts j = Failure" by simp
  have "run (many p) ts 0 [] = run (many p) ts j [v]"
    using assms pos by (simp add: run.simps [of "many p" ts 0 "[]"])
  also have "\<dots> = Some (Inl ParseError)"
    using again by (simp add: run.simps [of "many p" ts j "[v]"])
  finally show ?thesis by (simp add: parse_input_def)
qed

section \<open>Every application returns\<close>

text \<open>
  The number of resolutions of \<open>delay\<close> that \<open>parse\<close> allows is never used up, and no
  repetition of the grammar runs for ever: every unit of the grammar consumes a token
  before it resolves \<open>delay\<close>, and every repeated unit is productive.
\<close>

lemma repeat_bound:
  "repeat p ts i acc = Success v j \<Longrightarrow> j = i \<or> (i < j \<and> j \<le> length ts)"
proof (induction p ts i acc rule: repeat.induct)
  case (1 p ts i acc)
  show ?case
  proof (cases "p ts i")
    case (Success w k)
    with "1.prems" have g: "i < k \<and> k \<le> length ts"
      and r: "repeat p ts k (acc @ [w]) = Success v j"
      by (auto simp: repeat.simps [of p ts i acc] split: if_splits)
    from "1.IH" [OF Success g r] g show ?thesis by auto
  next
    case Failure
    with "1.prems" show ?thesis by (simp add: repeat.simps [of p ts i acc])
  next
    case (Thrown e)
    with "1.prems" show ?thesis by (simp add: repeat.simps [of p ts i acc])
  next
    case NoReturn
    with "1.prems" show ?thesis by (simp add: repeat.simps [of p ts i acc])
  qed
qed

lemma productive_advancing: "productive ts p \<Longrightarrow> advancing ts p"
  by (auto simp: productive_def advancing_def dest: less_imp_le)

lemma productive_m: "productive ts (m f)"
  by (auto simp: productive_def split: if_splits)

lemma productive_then: "productive ts p \<Longrightarrow> advancing ts q \<Longrightarrow> productive ts (then_p p q)"
  unfolding productive_def advancing_def
  by (fastforce split: reply.splits)

lemma productive_or: "productive ts p \<Longrightarrow> productive ts q \<Longrightarrow> productive ts (or_p p q)"
  unfolding productive_def by (auto split: reply.splits)

lemma productive_transformer: "productive ts p \<Longrightarrow> productive ts (transformer p f)"
  unfolding productive_def by (auto split: reply.splits sum.splits)

lemma productive_delay: "productive ts (g ()) \<Longrightarrow> productive ts (delay g)"
  unfolding productive_def by simp

lemma advancing_zero_or_more: "advancing ts (zero_or_more p)"
  unfolding advancing_def using repeat_bound [of p ts] by fastforce

lemma productive_many: "productive ts (many p)"
  unfolding productive_def
proof (intro allI impI)
  fix i v j
  assume "many p ts i = Success v j"
  then have r: "repeat p ts i [] = Success v j" and ne: "v \<noteq> JArr []"
    by (auto split: reply.splits if_splits)
  from repeat_cursor [OF r] ne have "j \<noteq> i" by auto
  with repeat_bound [OF r] show "i < j \<and> j \<le> length ts" by auto
qed

lemma returns_m: "returns_from ts k (m f)"
  by (simp add: returns_from_def)

lemma returns_then:
  "returns_from ts k p \<Longrightarrow> productive ts p \<Longrightarrow> returns_from ts (Suc k) q \<Longrightarrow>
   returns_from ts k (then_p p q)"
  unfolding returns_from_def productive_def
  by (fastforce split: reply.splits)

lemma returns_or:
  "returns_from ts k p \<Longrightarrow> returns_from ts k q \<Longrightarrow> returns_from ts k (or_p p q)"
  unfolding returns_from_def by (auto split: reply.splits)

lemma returns_transformer: "returns_from ts k p \<Longrightarrow> returns_from ts k (transformer p f)"
  unfolding returns_from_def by (auto split: reply.splits sum.splits)

lemma returns_delay: "returns_from ts k (g ()) \<Longrightarrow> returns_from ts k (delay g)"
  unfolding returns_from_def by simp

lemma returns_Suc: "returns_from ts k p \<Longrightarrow> returns_from ts (Suc k) p"
  unfolding returns_from_def by simp

lemma repeat_returns:
  "productive ts p \<Longrightarrow> returns_from ts k p \<Longrightarrow> k \<le> i \<Longrightarrow> i \<le> length ts \<Longrightarrow>
   repeat p ts i acc \<noteq> NoReturn"
proof (induction p ts i acc rule: repeat.induct)
  case (1 p ts i acc)
  from "1.prems" have nr: "p ts i \<noteq> NoReturn" by (simp add: returns_from_def)
  show ?case
  proof (cases "p ts i")
    case (Success w j)
    with "1.prems"(1) have g: "i < j \<and> j \<le> length ts" by (simp add: productive_def)
    with "1.prems" have "repeat p ts j (acc @ [w]) \<noteq> NoReturn"
      by (intro "1.IH" [OF Success g]) simp_all
    with Success g show ?thesis by (simp add: repeat.simps [of p ts i acc])
  next
    case Failure
    then show ?thesis by (simp add: repeat.simps [of p ts i acc])
  next
    case (Thrown e)
    then show ?thesis by (simp add: repeat.simps [of p ts i acc])
  next
    case NoReturn
    with nr show ?thesis by simp
  qed
qed

lemma returns_zero_or_more:
  "returns_from ts k p \<Longrightarrow> productive ts p \<Longrightarrow> returns_from ts k (zero_or_more p)"
  using repeat_returns [of ts p k] by (simp add: returns_from_def)

lemma returns_many:
  "returns_from ts k p \<Longrightarrow> productive ts p \<Longrightarrow> returns_from ts k (many p)"
  using repeat_returns [of ts p k] by (auto simp: returns_from_def split: reply.splits)

lemmas productive_rules = productive_m productive_then productive_or productive_transformer
  productive_many advancing_zero_or_more productive_advancing

lemmas returns_rules = returns_m returns_then returns_or returns_transformer
  returns_zero_or_more returns_many

lemma productive_word_set: "productive ts (word_set ws)"
proof (cases ws)
  case Nil
  then show ?thesis by (simp add: productive_def)
next
  case (Cons w ws')
  have "productive ts (foldl or_p p (map word ws'))" if "productive ts p" for p
    using that by (induction ws' arbitrary: p) (simp_all add: productive_or productive_m word_def)
  then show ?thesis
    using Cons by (simp add: productive_transformer productive_m word_def)
qed

lemma returns_word_set: "ws \<noteq> [] \<Longrightarrow> returns_from ts k (word_set ws)"
proof (cases ws)
  case Nil
  assume "ws \<noteq> []"
  with Nil show ?thesis by simp
next
  case (Cons w ws')
  have "returns_from ts k (foldl or_p p (map word ws'))" if "returns_from ts k p" for p
    using that by (induction ws' arbitrary: p) (simp_all add: returns_or returns_m word_def)
  then show ?thesis
    using Cons by (simp add: returns_transformer returns_m word_def)
qed

lemma productive_symbol_list: "productive ts symbol_list"
  unfolding symbol_list_def parenthesize_def lparen_def rparen_def symb_def
  by (intro productive_transformer productive_then productive_m productive_advancing
      productive_many)

lemma returns_symbol_list: "returns_from ts k symbol_list"
  unfolding symbol_list_def parenthesize_def lparen_def rparen_def symb_def
  by (intro returns_rules productive_transformer productive_then productive_m
      productive_advancing productive_many)

lemma productive_builtins: "productive ts builtins"
  unfolding builtins_def by (intro productive_transformer productive_word_set)

lemma returns_builtins: "returns_from ts k builtins"
  unfolding builtins_def by (intro returns_transformer returns_word_set) simp


lemmas token_parsers = parenthesize_def lparen_def rparen_def langle_def rangle_def
  lbracket_def rbracket_def word_def num_def symb_def pattern_def

lemmas productive_intros = productive_transformer productive_then productive_or productive_m
  productive_many advancing_zero_or_more productive_symbol_list productive_builtins
  productive_advancing

lemma productive_anonymous_func: "productive ts d \<Longrightarrow> productive ts (anonymous_func d)"
  unfolding anonymous_func_def token_parsers by (intro productive_intros)

lemma productive_func_application: "productive ts d \<Longrightarrow> productive ts (func_application d)"
  unfolding func_application_def token_parsers
  by (intro productive_intros productive_anonymous_func)

lemma productive_grammar:
  assumes d: "productive ts d"
  shows "productive ts (atomic d)" and "productive ts (list d)"
proof -
  show a: "productive ts (atomic d)"
    unfolding atomic_def closure_def builtin_def if_expression_def tuple_def binding_pair_def
      let_expression_def non_empty_data_list_def empty_data_list_def token_parsers
    by (intro productive_intros productive_anonymous_func productive_func_application d)
  show "productive ts (list d)"
    unfolding list_def token_parsers by (intro productive_intros a)
qed

lemmas returns_intros = returns_m returns_then returns_or returns_transformer
  returns_zero_or_more returns_many returns_symbol_list returns_builtins

lemma returns_anonymous_func:
  assumes d: "productive ts d" and r: "returns_from ts (Suc k) d"
  shows "returns_from ts k (anonymous_func d)"
  unfolding anonymous_func_def token_parsers
  by (intro returns_intros productive_intros d r returns_Suc [OF r])

lemma returns_func_application:
  assumes d: "productive ts d" and r: "returns_from ts (Suc k) d"
  shows "returns_from ts k (func_application d)"
  unfolding func_application_def token_parsers
  by (intro returns_intros productive_intros productive_anonymous_func
      returns_anonymous_func d r returns_Suc [OF r])

lemma returns_atomic:
  assumes d: "productive ts d" and r: "returns_from ts (Suc k) d"
  shows "returns_from ts k (atomic d)"
  unfolding atomic_def closure_def builtin_def if_expression_def tuple_def binding_pair_def
    let_expression_def non_empty_data_list_def empty_data_list_def token_parsers
  by (intro returns_intros productive_intros productive_anonymous_func
      productive_func_application returns_anonymous_func returns_func_application
      d r returns_Suc [OF r] returns_Suc [OF returns_Suc [OF r]])

lemma returns_list:
  assumes d: "productive ts d" and r: "returns_from ts (Suc k) d"
  shows "returns_from ts k (list d)"
  unfolding list_def token_parsers
  by (intro returns_intros productive_intros productive_grammar returns_atomic
      d r returns_Suc [OF r] returns_Suc [OF returns_Suc [OF r]]
      returns_Suc [OF returns_Suc [OF returns_Suc [OF r]]])

lemma productive_s_expr: "productive ts (s_expr n)"
proof (induction n)
  case 0
  show ?case by (simp add: productive_def s_expr.simps)
next
  case (Suc n)
  then have "productive ts (delay (\<lambda>x. s_expr n))" by (intro productive_delay)
  then show ?case
    by (simp add: s_expr.simps Let_def productive_or productive_grammar del: or_p.simps)
qed

lemma returns_s_expr: "length ts < k + n \<Longrightarrow> returns_from ts k (s_expr n)"
proof (induction n arbitrary: k)
  case 0
  then show ?case by (auto simp: returns_from_def)
next
  case (Suc n)
  let ?d = "delay (\<lambda>x. s_expr n)"
  have d: "productive ts ?d" by (intro productive_delay productive_s_expr)
  from Suc.prems have "returns_from ts (Suc k) (s_expr n)" by (intro Suc.IH) simp
  then have r: "returns_from ts (Suc k) ?d" by (intro returns_delay)
  show ?case
    by (simp add: s_expr.simps Let_def returns_or returns_atomic [OF d r] returns_list [OF d r]
        del: or_p.simps)
qed

lemma run_returns:
  "productive ts p \<Longrightarrow> returns_from ts 0 p \<Longrightarrow> i \<le> length ts \<Longrightarrow> run p ts i acc \<noteq> None"
proof (induction p ts i acc rule: run.induct)
  case (1 p ts i acc)
  from "1.prems" have nr: "p ts i \<noteq> NoReturn" by (simp add: returns_from_def)
  show ?case
  proof (cases "p ts i")
    case (Success v j)
    with "1.prems"(1) have g: "i < j \<and> j \<le> length ts" by (simp add: productive_def)
    show ?thesis
    proof (cases "length ts \<le> j")
      case True
      with Success show ?thesis by (simp add: run.simps [of p ts i acc])
    next
      case False
      with "1.prems" g have "run p ts j (acc @ [v]) \<noteq> None"
        by (intro "1.IH" [OF Success False]) simp_all
      with Success False g show ?thesis by (simp add: run.simps [of p ts i acc])
    qed
  next
    case Failure
    then show ?thesis by (simp add: run.simps [of p ts i acc])
  next
    case (Thrown e)
    then show ?thesis by (simp add: run.simps [of p ts i acc])
  next
    case NoReturn
    with nr show ?thesis by simp
  qed
qed

theorem parse_returns: "parse input \<noteq> None"
proof -
  let ?ts = "filter (\<lambda>x. \<not> (type x = IGNORE)) input"
  let ?p = "s_expr (Suc (length ?ts))"
  have "returns_from ?ts 0 ?p" by (intro returns_s_expr) simp
  then have "returns_from ?ts 0 (many ?p)"
    by (intro returns_many productive_s_expr)
  then show ?thesis
    by (simp add: parse_def parse_input_def Let_def run_returns productive_many
        del: many.simps)
qed

text \<open>
  More resolutions of \<open>delay\<close> than \<open>parse\<close> allows change nothing: the result of
  \<open>parse\<close> is the result of the grammar whose rule refers to itself without bound.
\<close>

lemma approximates_refl: "approximates p p"
  by (simp add: approximates_def)

lemma approximates_trans: "approximates p q \<Longrightarrow> approximates q r \<Longrightarrow> approximates p r"
  by (simp add: approximates_def)

lemma approximates_then:
  "approximates p p' \<Longrightarrow> approximates q q' \<Longrightarrow> approximates (then_p p q) (then_p p' q')"
  unfolding approximates_def
  by (auto split: reply.splits)

lemma approximates_or:
  "approximates p p' \<Longrightarrow> approximates q q' \<Longrightarrow> approximates (or_p p q) (or_p p' q')"
  unfolding approximates_def
  by (auto split: reply.splits)

lemma approximates_transformer:
  "approximates p p' \<Longrightarrow> approximates (transformer p f) (transformer p' f)"
  unfolding approximates_def
  by (auto split: reply.splits sum.splits)

lemma approximates_delay:
  "approximates (g ()) (g' ()) \<Longrightarrow> approximates (delay g) (delay g')"
  unfolding approximates_def by simp

lemma approximates_repeat:
  "approximates p p' \<Longrightarrow> repeat p ts i acc \<noteq> NoReturn \<Longrightarrow>
   repeat p' ts i acc = repeat p ts i acc"
proof (induction p ts i acc rule: repeat.induct)
  case (1 p ts i acc)
  from "1.prems"(2) have nr: "p ts i \<noteq> NoReturn"
    by (auto simp: repeat.simps [of p ts i acc])
  with "1.prems"(1) have eq: "p' ts i = p ts i" by (simp add: approximates_def)
  show ?case
  proof (cases "p ts i")
    case (Success w j)
    show ?thesis
    proof (cases "i < j \<and> j \<le> length ts")
      case True
      with "1.prems"(2) Success have "repeat p ts j (acc @ [w]) \<noteq> NoReturn"
        by (simp add: repeat.simps [of p ts i acc])
      with "1.IH" [OF Success True "1.prems"(1)]
      have "repeat p' ts j (acc @ [w]) = repeat p ts j (acc @ [w])" .
      with Success True eq show ?thesis
        by (simp add: repeat.simps [of p ts i acc] repeat.simps [of p' ts i acc])
    next
      case False
      with Success eq show ?thesis
        by (auto simp: repeat.simps [of p ts i acc] repeat.simps [of p' ts i acc])
    qed
  next
    case Failure
    with eq show ?thesis
      by (simp add: repeat.simps [of p ts i acc] repeat.simps [of p' ts i acc])
  next
    case (Thrown e)
    with eq show ?thesis
      by (simp add: repeat.simps [of p ts i acc] repeat.simps [of p' ts i acc])
  next
    case NoReturn
    with nr show ?thesis by simp
  qed
qed

lemma approximates_zero_or_more:
  "approximates p p' \<Longrightarrow> approximates (zero_or_more p) (zero_or_more p')"
  using approximates_repeat [of p p'] by (simp add: approximates_def)

lemma approximates_many: "approximates p p' \<Longrightarrow> approximates (many p) (many p')"
  unfolding approximates_def
proof (intro allI impI)
  fix ts i
  assume a: "\<forall>ts i. p ts i \<noteq> NoReturn \<longrightarrow> p' ts i = p ts i" and "many p ts i \<noteq> NoReturn"
  then have "repeat p ts i [] \<noteq> NoReturn" by (auto split: reply.splits)
  with a have "repeat p' ts i [] = repeat p ts i []"
    by (intro approximates_repeat) (simp add: approximates_def)
  then show "many p' ts i = many p ts i" by simp
qed

lemmas approximates_intros = approximates_then approximates_or approximates_transformer
  approximates_zero_or_more approximates_many approximates_refl

lemma approximates_grammar:
  assumes d: "approximates d d'"
  shows "approximates (atomic d) (atomic d')" and "approximates (list d) (list d')"
proof -
  have af: "approximates (anonymous_func d) (anonymous_func d')"
    unfolding anonymous_func_def parenthesize_def by (intro approximates_intros d)
  have fa: "approximates (func_application d) (func_application d')"
    unfolding func_application_def parenthesize_def by (intro approximates_intros d af)
  show a: "approximates (atomic d) (atomic d')"
    unfolding atomic_def closure_def builtin_def if_expression_def tuple_def binding_pair_def
      let_expression_def non_empty_data_list_def parenthesize_def pattern_def
    by (intro approximates_intros d af fa)
  show "approximates (list d) (list d')"
    unfolding list_def parenthesize_def by (intro approximates_intros d a)
qed

lemma approximates_s_expr_Suc: "approximates (s_expr n) (s_expr (Suc n))"
proof (induction n)
  case 0
  show ?case by (simp add: approximates_def s_expr.simps)
next
  case (Suc n)
  then have "approximates (delay (\<lambda>x. s_expr n)) (delay (\<lambda>x. s_expr (Suc n)))"
    by (intro approximates_delay)
  then show ?case
    using s_expr.simps(2) [of n] s_expr.simps(2) [of "Suc n"]
    by (simp add: Let_def approximates_or approximates_grammar del: or_p.simps)
qed

lemma approximates_s_expr: "approximates (s_expr n) (s_expr (n + k))"
proof (induction k)
  case 0
  show ?case by (simp add: approximates_refl)
next
  case (Suc k)
  from Suc approximates_s_expr_Suc [of "n + k"] show ?case
    by (auto intro: approximates_trans)
qed

lemma approximates_run:
  "approximates p p' \<Longrightarrow> run p ts i acc \<noteq> None \<Longrightarrow> run p' ts i acc = run p ts i acc"
proof (induction p ts i acc rule: run.induct)
  case (1 p ts i acc)
  from "1.prems"(2) have nr: "p ts i \<noteq> NoReturn"
    by (auto simp: run.simps [of p ts i acc])
  with "1.prems"(1) have eq: "p' ts i = p ts i" by (simp add: approximates_def)
  show ?case
  proof (cases "p ts i")
    case (Success v j)
    show ?thesis
    proof (cases "\<not> length ts \<le> j \<and> i < j")
      case True
      with "1.prems"(2) Success have "run p ts j (acc @ [v]) \<noteq> None"
        by (simp add: run.simps [of p ts i acc])
      with "1.IH" [OF Success _ _ "1.prems"(1)] True
      have "run p' ts j (acc @ [v]) = run p ts j (acc @ [v])" by simp
      with Success True eq show ?thesis
        by (simp add: run.simps [of p ts i acc] run.simps [of p' ts i acc])
    next
      case False
      with Success eq show ?thesis
        by (auto simp: run.simps [of p ts i acc] run.simps [of p' ts i acc])
    qed
  next
    case Failure
    with eq show ?thesis
      by (simp add: run.simps [of p ts i acc] run.simps [of p' ts i acc])
  next
    case (Thrown e)
    with eq show ?thesis
      by (simp add: run.simps [of p ts i acc] run.simps [of p' ts i acc])
  next
    case NoReturn
    with nr show ?thesis by simp
  qed
qed

theorem parse_more_delay:
  "parse_input (many (s_expr (Suc (length (filter (\<lambda>x. \<not> (type x = IGNORE)) input)) + k)))
     (filter (\<lambda>x. \<not> (type x = IGNORE)) input) = parse input"
proof -
  let ?ts = "filter (\<lambda>x. \<not> (type x = IGNORE)) input"
  have a: "approximates (many (s_expr (Suc (length ?ts)))) (many (s_expr (Suc (length ?ts) + k)))"
    by (intro approximates_many approximates_s_expr)
  have "run (many (s_expr (Suc (length ?ts)))) ?ts 0 [] \<noteq> None"
    using parse_returns [of input] by (simp add: parse_def parse_input_def Let_def)
  from approximates_run [OF a this] show ?thesis
    by (simp add: parse_def parse_input_def Let_def)
qed

lemma parse_input_accepted:
  assumes "parse_input (many p) ts = Some (Inr vs)"
  shows "\<exists>w. vs = [w] \<and> many p ts 0 = Success w (length ts)"
proof (cases "many p ts 0")
  case (Success w j)
  have j: "0 < j \<and> j \<le> length ts"
    using productive_many [of ts p] Success by (simp add: productive_def del: many.simps)
  show ?thesis
  proof (cases "j < length ts")
    case True
    from many_trailing [OF Success True] assms show ?thesis by simp
  next
    case False
    with j have "j = length ts" by simp
    with Success assms show ?thesis
      by (simp add: parse_input_def run.simps [of "many p" ts 0 "[]"] del: many.simps)
  qed
next
  case Failure
  with assms show ?thesis
    by (simp add: parse_input_def run.simps [of "many p" ts 0 "[]"] del: many.simps)
next
  case (Thrown e)
  with assms show ?thesis
    by (simp add: parse_input_def run.simps [of "many p" ts 0 "[]"] del: many.simps)
next
  case NoReturn
  with assms show ?thesis
    by (simp add: parse_input_def run.simps [of "many p" ts 0 "[]"] del: many.simps)
qed

section \<open>Ordered choice\<close>

lemma foldl_or_p_first_of: "foldl or_p p ps ts i = first_of (p # ps) ts i"
proof (induction ps arbitrary: p)
  case Nil
  show ?case by (cases "p ts i") simp_all
next
  case (Cons q qs)
  have "foldl or_p p (q # qs) ts i = first_of (or_p p q # qs) ts i"
    using Cons.IH [of "or_p p q"] by (simp del: or_p.simps)
  also have "\<dots> = first_of (p # q # qs) ts i"
    by (cases "p ts i") simp_all
  finally show ?case .
qed

lemma atomic_foldl:
  "atomic d = foldl or_p (non_empty_data_list d)
     [empty_data_list, tuple d, num, builtin d, anonymous_func d, if_expression d,
      func_application d, let_expression d, closure d, symb]"
  by (simp add: atomic_def)

section \<open>The builtin word set and the symbol list\<close>

lemma word_set_builtins:
  "word_set [''+'', ''-'', ''*'', ''/'', ''='', ''%'', ''lt'', ''gt'', ''lte'', ''gte''] ts i =
     (if i < length ts \<and> characters (ts ! i) \<in>
           set [''+'', ''-'', ''*'', ''/'', ''='', ''%'', ''lt'', ''gt'', ''lte'', ''gte'']
      then Success (JStr (characters (ts ! i))) (Suc i) else Failure)"
  by (simp add: word_def)

text \<open>The production \<open>builtins\<close> at any position, in full.\<close>

lemma builtins_value:
  "builtins ts i =
     (if i < length ts then
        (if characters (ts ! i) = ''+'' then Success (BuiltinPlus [(''arity'', JNum 2)]) (Suc i)
         else if characters (ts ! i) = ''-'' then
           Success (BuiltinMinus [(''arity'', JNum 2)]) (Suc i)
         else if characters (ts ! i) = ''*'' then
           Success (BuiltinTimes [(''arity'', JNum 2)]) (Suc i)
         else if characters (ts ! i) = ''/'' then
           Success (BuiltinDivide [(''arity'', JNum 2)]) (Suc i)
         else if characters (ts ! i) = ''='' then
           Success (BuiltinEqual [(''arity'', JNum 2)]) (Suc i)
         else if characters (ts ! i) = ''%'' then
           Success (BuiltinModulo [(''arity'', JNum 2)]) (Suc i)
         else if characters (ts ! i) \<in> set [''lt'', ''gt'', ''lte'', ''gte''] then
           Thrown UnknownBuiltin
         else Failure)
      else Failure)"
  by (auto simp add: builtins_def builtins_switch_def word_set_builtins simp del: word_set.simps)

lemma repeat_symb_run:
  assumes "\<forall>s\<in>set syms. type s = SYMBOL" and "type p \<noteq> SYMBOL"
  shows "repeat symb (pre @ syms @ p # rest) (length pre) acc =
     Success (JArr (acc @ map (\<lambda>s. Symbol (JStr (characters s)) []) syms))
       (length pre + length syms)"
  using assms(1)
proof (induction syms arbitrary: pre acc)
  case Nil
  have "symb (pre @ p # rest) (length pre) = Failure"
    using assms(2) by (simp add: symb_def)
  then show ?case
    by (simp add: repeat.simps [of symb "pre @ p # rest" "length pre" acc])
next
  case (Cons s syms)
  let ?ts = "pre @ (s # syms) @ p # rest"
  have ts: "?ts = (pre @ [s]) @ syms @ p # rest" by simp
  have "symb ?ts (length pre) = Success (Symbol (JStr (characters s)) []) (Suc (length pre))"
    using Cons.prems by (simp add: symb_def)
  then have "repeat symb ?ts (length pre) acc =
      repeat symb ?ts (Suc (length pre)) (acc @ [Symbol (JStr (characters s)) []])"
    by (subst repeat.simps) simp
  also have "\<dots> = Success (JArr ((acc @ [Symbol (JStr (characters s)) []]) @
        map (\<lambda>s. Symbol (JStr (characters s)) []) syms)) (length (pre @ [s]) + length syms)"
    unfolding ts using Cons.prems Cons.IH [of "pre @ [s]" "acc @ [Symbol (JStr (characters s)) []]"]
    by simp
  finally show ?case by simp
qed

lemma symbol_list_fails:
  assumes "\<forall>s\<in>set syms. type s = SYMBOL" and "type p \<noteq> SYMBOL" and "type p \<noteq> RPAREN"
  shows "symbol_list (pre @ l # syms @ p # rest) (length pre) = Failure"
proof -
  let ?ts = "pre @ l # syms @ p # rest"
  have ts: "?ts = (pre @ [l]) @ syms @ p # rest" by simp
  have r: "repeat symb ?ts (Suc (length pre)) [] =
      Success (JArr (map (\<lambda>s. Symbol (JStr (characters s)) []) syms))
        (Suc (length pre) + length syms)"
    unfolding ts using repeat_symb_run [OF assms(1,2), of "pre @ [l]" rest "[]"] by simp
  have nth: "?ts ! (Suc (length pre) + length syms) = p"
    unfolding ts by (simp add: nth_append)
  have "rparen ?ts (Suc (length pre) + length syms) = Failure"
    using assms(3) nth by (simp add: rparen_def)
  with r show ?thesis
    by (simp add: symbol_list_def parenthesize_def lparen_def split: reply.splits)
qed

section \<open>The properties\<close>

text \<open>
  C1: the arity bookkeeping on \<^verbatim>\<open>((fun (x y) (+ x y)) 1)\<close>. The production
  \<open>func_application\<close> is \<open>parenthesize\<close> of a sequence that itself ends in \<open>rparen\<close>, so
  it asks for two closing parentheses after the arguments. On the token sequence of the
  example it fails, and so does \<open>closure\<close>, which starts with it; the parse is accepted
  through the generic list, and no FunctionApplication node is built (only the action of
  \<open>func_application\<close> builds one).
\<close>

theorem func_application_second_rparen:
  "func_application (delay (\<lambda>x. s_expr 15)) tokens_func_application 0 = Failure
   \<and> closure (delay (\<lambda>x. s_expr 15)) tokens_func_application 0 = Failure
   \<and> accepted (parse tokens_func_application)"
  by (simp add: tokens_func_application_def eval_simps)

text \<open>
  C3: the logic operators. The word set of \<open>builtins\<close> holds ten words and none of
  \<^verbatim>\<open>and\<close>, \<^verbatim>\<open>or\<close>, \<^verbatim>\<open>not\<close>, \<^verbatim>\<open>xor\<close>: the production fails on these words, and the
  builtin application on \<^verbatim>\<open>(not 1)\<close> with it, although the \<^verbatim>\<open>switch\<close> has a case for each
  of them (reached only by a value whose element 0 is the word), the one for \<^verbatim>\<open>xor\<close> with
  arity 1.
\<close>

theorem builtins_logic_operators:
  "builtins [\<lparr>type = ty, characters = ''and''\<rparr>] 0 = Failure
   \<and> builtins [\<lparr>type = ty, characters = ''or''\<rparr>] 0 = Failure
   \<and> builtins [\<lparr>type = ty, characters = ''not''\<rparr>] 0 = Failure
   \<and> builtins [\<lparr>type = ty, characters = ''xor''\<rparr>] 0 = Failure
   \<and> builtin d tokens_not 0 = Failure
   \<and> builtins_switch (JArr [JStr ''and'']) = Inr (BuiltinAnd [(''arity'', JNum 2)])
   \<and> builtins_switch (JArr [JStr ''or'']) = Inr (BuiltinOr [(''arity'', JNum 2)])
   \<and> builtins_switch (JArr [JStr ''not'']) = Inr (BuiltinNot [(''arity'', JNum 1)])
   \<and> builtins_switch (JArr [JStr ''xor'']) = Inr (BuiltinXor [(''arity'', JNum 1)])"
  by (simp add: tokens_not_def eval_simps)

text \<open>
  C4: the alternatives of \<open>atomic\<close> are tried in the order non-empty data list, empty
  data list, tuple, number, builtin application, anonymous function, if-expression,
  function application, let-expression, closure application, symbol, and \<open>s_expr\<close> tries
  \<open>atomic\<close> before the generic list; \<^verbatim>\<open>[]\<close> is accepted by \<open>atomic\<close> itself and parses
  as the empty List node, and \<^verbatim>\<open><1,2>\<close> parses as the Tuple of the numbers 1 and 2.
\<close>

theorem atomic_priority_order:
  "atomic d ts i =
     first_of [non_empty_data_list d, empty_data_list, tuple d, num, builtin d,
       anonymous_func d, if_expression d, func_application d, let_expression d, closure d,
       symb] ts i
   \<and> s_expr (Suc n) ts i =
       first_of [atomic (delay (\<lambda>x. s_expr n)), list (delay (\<lambda>x. s_expr n))] ts i
   \<and> atomic (delay (\<lambda>x. s_expr (Suc n))) [token LBRACKET a, token RBRACKET b] 0 =
       Success (List (JArr []) []) 2
   \<and> parse [token LBRACKET a, token RBRACKET b] = Some (Inr [JArr [List (JArr []) []]])
   \<and> parse tokens_tuple =
       Some (Inr [JArr [Tuple (JArr [Num (JNum 1) [], Num (JNum 2) []]) []]])"
proof -
  have 1: "atomic d ts i =
     first_of [non_empty_data_list d, empty_data_list, tuple d, num, builtin d,
       anonymous_func d, if_expression d, func_application d, let_expression d, closure d,
       symb] ts i"
    unfolding atomic_foldl by (rule foldl_or_p_first_of)
  have 2: "s_expr (Suc n) ts i =
       first_of [atomic (delay (\<lambda>x. s_expr n)), list (delay (\<lambda>x. s_expr n))] ts i"
    using foldl_or_p_first_of [of "atomic (delay (\<lambda>x. s_expr n))" "[list (delay (\<lambda>x. s_expr n))]" ts i]
    by (simp add: s_expr.simps Let_def del: first_of.simps or_p.simps)
  have 3: "atomic (delay (\<lambda>x. s_expr (Suc n))) [token LBRACKET a, token RBRACKET b] 0 =
       Success (List (JArr []) []) 2"
    by (simp add: eval_simps)
  have 4: "parse [token LBRACKET a, token RBRACKET b] = Some (Inr [JArr [List (JArr []) []]])"
    by (simp add: eval_simps)
  have 5: "parse tokens_tuple =
       Some (Inr [JArr [Tuple (JArr [Num (JNum 1) [], Num (JNum 2) []]) []]])"
    by (simp add: tokens_tuple_def eval_simps)
  from 1 2 3 4 5 show ?thesis by blast
qed

text \<open>
  C5, as the code has it: in a token sequence of the shape \<^verbatim>\<open>(fun (p ...) body)\<close> whose
  parameter list holds a token \<open>p\<close> that is not a SYMBOL token (after any number of SYMBOL
  tokens), the symbol-list production fails at the parameter list and the anonymous
  function production fails, whatever follows.
\<close>

theorem anonymous_func_non_symbol_parameter:
  assumes "\<forall>s\<in>set syms. type s = SYMBOL" and "type p \<noteq> SYMBOL" and "type p \<noteq> RPAREN"
  shows "symbol_list (pre @ [token LPAREN a, \<lparr>type = ty, characters = ''fun''\<rparr>] @
            token LPAREN b # syms @ p # rest) (length pre + 2) = Failure
     \<and> anonymous_func d (pre @ [token LPAREN a, \<lparr>type = ty, characters = ''fun''\<rparr>] @
            token LPAREN b # syms @ p # rest) (length pre) = Failure"
proof -
  let ?f = "\<lparr>type = ty, characters = ''fun''\<rparr>"
  let ?ts = "pre @ [token LPAREN a, ?f] @ token LPAREN b # syms @ p # rest"
  have ts: "?ts = (pre @ [token LPAREN a, ?f]) @ token LPAREN b # syms @ p # rest" by simp
  have sl: "symbol_list ?ts (length pre + 2) = Failure"
    unfolding ts
    using symbol_list_fails [OF assms, of "pre @ [token LPAREN a, ?f]" "token LPAREN b" rest]
    by simp
  have "anonymous_func d ?ts (length pre) = Failure"
    using sl by (simp add: anonymous_func_def parenthesize_def lparen_def word_def token_def
        nth_append split: reply.splits)
  with sl show ?thesis by blast
qed

theorem anonymous_func_non_symbol_parameter_witness:
  "anonymous_func (delay (\<lambda>x. s_expr 8)) tokens_fun_numbers 0 = Failure"
proof -
  have "\<forall>s\<in>set ([]::Token list). type s = SYMBOL" by simp
  moreover have "type (token NUMBER ''1'') \<noteq> SYMBOL" by (simp add: token_def)
  moreover have "type (token NUMBER ''1'') \<noteq> RPAREN" by (simp add: token_def)
  ultimately show ?thesis
    using anonymous_func_non_symbol_parameter [of "[]" "token NUMBER ''1''" "[]" "''(''" SYMBOL "''(''"
        "[token NUMBER ''2'', token RPAREN '')'', token SYMBOL ''x'', token RPAREN '')'']"
        "delay (\<lambda>x. s_expr 8)"]
    by (simp add: tokens_fun_numbers_def token_def)
qed

text \<open>
  C5 as stated fails: the parse of \<^verbatim>\<open>(fun (1 2) x)\<close> is not a terminal failure; the
  generic list accepts the tokens.
\<close>

theorem parse_fun_numbers_accepted:
  "accepted (parse tokens_fun_numbers)"
  by (simp add: tokens_fun_numbers_def eval_simps)

text \<open>
  C6: a let form without binding pairs, \<^verbatim>\<open>(let 1)\<close>: the production \<open>let_expression\<close>
  repeats \<open>binding_pair\<close> with \<open>many\<close>, which needs one success, so it fails, whatever the
  delayed rule is; the parse is accepted through the generic list instead.
\<close>

theorem let_expression_no_bindings:
  "let_expression d tokens_let 0 = Failure \<and> accepted (parse tokens_let)"
  by (simp add: tokens_let_def eval_simps)

text \<open>
  C7: for the words \<^verbatim>\<open>lt\<close>, \<^verbatim>\<open>gt\<close>, \<^verbatim>\<open>lte\<close> and \<^verbatim>\<open>gte\<close> of the word set, the action of
  \<open>builtins\<close> switches on \<^verbatim>\<open>x[0]\<close>, the first character of the word, and reaches the
  \<^verbatim>\<open>Unknown builtin.\<close> branch; the parse of \<^verbatim>\<open>(lt 1 2)\<close> ends with that exception.
\<close>

theorem builtins_unknown_builtin:
  "builtins [\<lparr>type = ty, characters = ''lt''\<rparr>] 0 = Thrown UnknownBuiltin
   \<and> builtins [\<lparr>type = ty, characters = ''gt''\<rparr>] 0 = Thrown UnknownBuiltin
   \<and> builtins [\<lparr>type = ty, characters = ''lte''\<rparr>] 0 = Thrown UnknownBuiltin
   \<and> builtins [\<lparr>type = ty, characters = ''gte''\<rparr>] 0 = Thrown UnknownBuiltin
   \<and> parse tokens_lt = Some (Inl UnknownBuiltin)"
  by (simp add: tokens_lt_def eval_simps)

text \<open>
  C8: when the one-or-more repetition of \<open>s_expr\<close> stops before the end of the (filtered)
  token sequence, so that tokens remain after the last top-level form it could parse,
  \<open>parse\<close> reports the terminal failure and returns no values; and whenever \<open>parse\<close>
  returns values, the repetition has consumed the whole (filtered) token sequence: there
  is no truncated success.
\<close>

theorem parse_trailing_tokens:
  assumes "filtered_tokens = filter (\<lambda>x. \<not> (type x = IGNORE)) input"
  shows "(many (s_expr (Suc (length filtered_tokens))) filtered_tokens 0 = Success v j
            \<and> j < length filtered_tokens \<longrightarrow> parse input = Some (Inl ParseError))
     \<and> (parse input = Some (Inr vs) \<longrightarrow>
          (\<exists>w. vs = [w] \<and> many (s_expr (Suc (length filtered_tokens))) filtered_tokens 0
                  = Success w (length filtered_tokens)))"
proof (intro conjI impI)
  assume "many (s_expr (Suc (length filtered_tokens))) filtered_tokens 0 = Success v j
            \<and> j < length filtered_tokens"
  then show "parse input = Some (Inl ParseError)"
    using many_trailing [of "s_expr (Suc (length filtered_tokens))" filtered_tokens v j] assms
    by (simp add: parse_def Let_def del: many.simps)
next
  assume "parse input = Some (Inr vs)"
  then have "parse_input (many (s_expr (Suc (length filtered_tokens)))) filtered_tokens
               = Some (Inr vs)"
    using assms by (simp add: parse_def Let_def)
  then show "\<exists>w. vs = [w] \<and> many (s_expr (Suc (length filtered_tokens))) filtered_tokens 0
                  = Success w (length filtered_tokens)"
    by (rule parse_input_accepted)
qed

theorem parse_trailing_tokens_witness:
  "many (s_expr (Suc (length tokens_stray))) tokens_stray 0 = Success (JArr [Num (JNum 1) []]) 1
   \<and> 1 < length tokens_stray
   \<and> parse tokens_stray = Some (Inl ParseError)
   \<and> parse [token NUMBER ''1''] = Some (Inr [JArr [Num (JNum 1) []]])
   \<and> many (s_expr (Suc (length [token NUMBER ''1'']))) [token NUMBER ''1''] 0
         = Success (JArr [Num (JNum 1) []]) (length [token NUMBER ''1''])"
proof -
  have a: "tokens_stray = filter (\<lambda>x. \<not> (type x = IGNORE)) tokens_stray"
    by (simp add: tokens_stray_def token_def)
  have b: "many (s_expr (Suc (length tokens_stray))) tokens_stray 0
             = Success (JArr [Num (JNum 1) []]) 1"
    by (simp add: tokens_stray_def eval_simps)
  have c: "1 < length tokens_stray"
    by (simp add: tokens_stray_def)
  have d: "parse tokens_stray = Some (Inl ParseError)"
    using parse_trailing_tokens [OF a, of "JArr [Num (JNum 1) []]" 1] b c by blast
  have e: "[token NUMBER ''1''] = filter (\<lambda>x. \<not> (type x = IGNORE)) [token NUMBER ''1'']"
    by (simp add: token_def)
  have f: "parse [token NUMBER ''1''] = Some (Inr [JArr [Num (JNum 1) []]])"
    by (simp add: eval_simps)
  from parse_trailing_tokens [OF e, of _ _ "[JArr [Num (JNum 1) []]]"] f
  obtain w where w: "[JArr [Num (JNum 1) []]] = [w]"
    and m: "many (s_expr (Suc (length [token NUMBER ''1'']))) [token NUMBER ''1''] 0
         = Success w (length [token NUMBER ''1''])"
    by blast
  from w have "w = JArr [Num (JNum 1) []]" by simp
  with m have g: "many (s_expr (Suc (length [token NUMBER ''1'']))) [token NUMBER ''1''] 0
         = Success (JArr [Num (JNum 1) []]) (length [token NUMBER ''1''])"
    by (simp only:)
  from b c d f g show ?thesis by blast
qed

text \<open>
  C9: \<open>parse\<close> of an input equals \<open>parse\<close> of the input without its IGNORE tokens, and an
  IGNORE token inserted at any position does not change the result.
\<close>

theorem parse_ignores_IGNORE:
  "parse (filter (\<lambda>x. \<not> (type x = IGNORE)) input) = parse input
   \<and> parse (xs @ \<lparr>type = IGNORE, characters = c\<rparr> # ys) = parse (xs @ ys)"
  by (simp add: parse_def)

text \<open>
  C10: the parse of an empty token sequence, or of one that holds IGNORE tokens only, is
  the terminal failure.
\<close>

theorem parse_nothing:
  assumes "\<forall>x\<in>set input. type x = IGNORE"
  shows "parse input = Some (Inl ParseError)"
proof -
  from assms have "filter (\<lambda>x. \<not> (type x = IGNORE)) input = []"
    by (induction input) simp_all
  then show ?thesis by (simp add: eval_simps)
qed

theorem parse_nothing_witness:
  "parse [] = Some (Inl ParseError)
   \<and> parse [token IGNORE '' '', token IGNORE '',''] = Some (Inl ParseError)"
  using parse_nothing [of "[]"] parse_nothing [of "[token IGNORE '' '', token IGNORE '','']"]
  by (simp add: token_def)

end
